theory Spec2Isabelle
  imports Complex_Main "HOL-Library.AList" "HOL-Library.Sublist"
begin

section \<open>Python values and dictionaries\<close>

text \<open>
  The configuration classes of \<^verbatim>\<open>unstructured/ingest/cli/interfaces.py\<close> receive a value
  of type \<^verbatim>\<open>Json\<close>: \<^verbatim>\<open>None\<close>, a bool, an int, a float, a string, a list or a dict with
  string keys. A float is represented by the real number it denotes; the only thing the
  code asks of one is whether it is zero. A dict is an association list in insertion
  order; a Python dict has each key once, which is \<open>is_dict\<close>.
\<close>

datatype pyval =
    PNone
  | PBool bool
  | PInt int
  | PFloat real
  | PStr string
  | PList "pyval list"
  | PDict "(string \<times> pyval) list"

type_synonym py_dict = "(string \<times> pyval) list"

text \<open>Python's truth value test (\<^verbatim>\<open>if x\<close>, \<^verbatim>\<open>not x\<close>, \<^verbatim>\<open>any\<close>, \<^verbatim>\<open>all\<close>).\<close>

fun truthy :: "pyval \<Rightarrow> bool" where
  "truthy PNone = False"
| "truthy (PBool b) = b"
| "truthy (PInt i) = (i \<noteq> 0)"
| "truthy (PFloat x) = (x \<noteq> 0)"
| "truthy (PStr s) = (s \<noteq> [])"
| "truthy (PList xs) = (xs \<noteq> [])"
| "truthy (PDict d) = (d \<noteq> [])"

definition is_dict :: "py_dict \<Rightarrow> bool" where
  "is_dict d = distinct (map fst d)"

text \<open>\<^verbatim>\<open>key in d\<close>\<close>

definition dict_contains :: "py_dict \<Rightarrow> string \<Rightarrow> bool" where
  "dict_contains d k = (k \<in> set (map fst d))"

text \<open>\<^verbatim>\<open>d.get(key)\<close>: the value, \<^verbatim>\<open>None\<close> for a missing key.\<close>

definition dict_get :: "py_dict \<Rightarrow> string \<Rightarrow> pyval" where
  "dict_get d k = (case map_of d k of Some v \<Rightarrow> v | None \<Rightarrow> PNone)"

text \<open>\<^verbatim>\<open>d.pop(key, None)\<close>: the value (or \<^verbatim>\<open>None\<close>) and the dict without the key.\<close>

definition dict_pop :: "py_dict \<Rightarrow> string \<Rightarrow> pyval \<times> py_dict" where
  "dict_pop d k = (dict_get d k, AList.delete k d)"

text \<open>
  \<^verbatim>\<open>dict(pairs)\<close> and the dict comprehension: the pairs are stored one after the other,
  a later pair replacing the value of a key that is already there.
\<close>

definition dict_of_pairs :: "(string \<times> pyval) list \<Rightarrow> py_dict" where
  "dict_of_pairs ps = fold (\<lambda>(k, v) d. AList.update k v d) ps []"

text \<open>\<^verbatim>\<open>s.startswith(p)\<close>\<close>

definition startswith :: "string \<Rightarrow> string \<Rightarrow> bool" where
  "startswith s p = (take (length p) s = p)"

text \<open>
  \<^verbatim>\<open>{k[len(p):]: v for k, v in kvs.items() if k.startswith(p)}\<close>, the comprehension of
  the embedding and permissions classes.
\<close>

definition strip_prefix_items :: "string \<Rightarrow> py_dict \<Rightarrow> (string \<times> pyval) list" where
  "strip_prefix_items p kvs =
     map (\<lambda>(k, v). (drop (length p) k, v)) (filter (\<lambda>(k, v). startswith k p) kvs)"

section \<open>CliChunkingConfig.from_dict\<close>

text \<open>
  The base class's \<^verbatim>\<open>from_dict\<close> (of \<^verbatim>\<open>dataclasses_json\<close>, over a dataclass declared in
  another module) is the parameter \<open>super_from_dict\<close>. The result \<open>None\<close> is Python's
  \<^verbatim>\<open>None\<close>.
\<close>

definition iter_kv_pairs :: "pyval \<Rightarrow> pyval \<Rightarrow> py_dict \<Rightarrow> (string \<times> pyval) list" where
  "iter_kv_pairs chunk_elements chunking_strategy options =
     (if truthy chunking_strategy then [(''chunking_strategy'', chunking_strategy)]
      else if truthy chunk_elements then [(''chunking_strategy'', PStr ''by_title'')]
      else [])
     @ strip_prefix_items ''chunk_'' options"

definition CliChunkingConfig_from_dict :: "(pyval \<Rightarrow> 'r) \<Rightarrow> pyval \<Rightarrow> 'r option" where
  "CliChunkingConfig_from_dict super_from_dict kvs =
     (case kvs of
        PDict d \<Rightarrow>
          (let (chunk_elements, options1) = dict_pop d ''chunk_elements'';
               (chunking_strategy, options) = dict_pop options1 ''chunking_strategy''
           in if \<not> truthy chunk_elements \<and> \<not> truthy chunking_strategy then None
              else
                (let new_kvs = dict_of_pairs (iter_kv_pairs chunk_elements chunking_strategy options)
                 in if length new_kvs = 0 then None
                    else Some (super_from_dict (PDict new_kvs))))
      | _ \<Rightarrow> Some (super_from_dict kvs))"

section \<open>CliEmbeddingConfig.from_dict\<close>

definition CliEmbeddingConfig_from_dict :: "(pyval \<Rightarrow> 'r) \<Rightarrow> pyval \<Rightarrow> 'r option" where
  "CliEmbeddingConfig_from_dict super_from_dict kvs =
     (case kvs of
        PDict d \<Rightarrow>
          (let new_kvs = dict_of_pairs (strip_prefix_items ''embedding_'' d)
           in if length (map fst new_kvs) = 0 then None
              else if \<not> truthy (dict_get new_kvs ''provider'') then None
              else Some (super_from_dict (PDict new_kvs)))
      | _ \<Rightarrow> Some (super_from_dict kvs))"

section \<open>Errors\<close>

text \<open>
  \<open>ValueError\<close> carries its message. \<open>BadParameter\<close> is what click's
  \<^verbatim>\<open>ParamType.fail\<close> raises, with the message given to it. \<open>TypeError\<close> and
  \<open>AttributeError\<close> are raised by the interpreter and the standard library.
\<close>

datatype error =
    ValueError string
  | BadParameter string
  | TypeError
  | AttributeError

section \<open>CliPermissionsConfig.from_dict\<close>

definition permissions_message :: string where
  "permissions_message =
     ''Please provide either none or all of the following optional values:'' @ [CHR 0x0A]
     @ ''--permissions-application-id'' @ [CHR 0x0A]
     @ ''--permissions-client-cred'' @ [CHR 0x0A]
     @ ''--permissions-tenant''"

definition CliPermissionsConfig_from_dict ::
  "(pyval \<Rightarrow> 'r) \<Rightarrow> pyval \<Rightarrow> error + 'r option" where
  "CliPermissionsConfig_from_dict super_from_dict kvs =
     (case kvs of
        PDict d \<Rightarrow>
          (let permissions_application_id = dict_get d ''permissions_application_id'';
               permissions_client_cred = dict_get d ''permissions_client_cred'';
               permissions_tenant = dict_get d ''permissions_tenant'';
               permission_values =
                 [permissions_application_id, permissions_client_cred, permissions_tenant]
           in if list_ex truthy permission_values \<and> \<not> list_all truthy permission_values
              then Inl (ValueError permissions_message)
              else
                (let new_kvs = dict_of_pairs (strip_prefix_items ''permissions_'' d)
                 in if length (map fst new_kvs) = 0 then Inr None
                    else Inr (Some (super_from_dict (PDict new_kvs)))))
      | _ \<Rightarrow> Inr (Some (super_from_dict kvs)))"

section \<open>CliRetryStrategyConfig.from_dict\<close>

text \<open>
  Modelled from the spec: the dataclass \<^verbatim>\<open>RetryStrategyConfig\<close> is declared in another
  module; its fields are the optional max-retry count and the optional max-retry duration,
  which the options \<^verbatim>\<open>--max-retries\<close> and \<^verbatim>\<open>--max-retry-time\<close> of this file fill.
\<close>

definition RetryStrategyConfig_fields :: "string list" where
  "RetryStrategyConfig_fields = [''max_retries'', ''max_retry_time'']"

text \<open>
  \<open>fields\<close> are the names \<^verbatim>\<open>dataclasses.fields(cls)\<close> gives. The set comprehension
  \<open>field_names\<close> is a duplicate-free list; the code only asks whether \<open>field_values\<close> is
  empty, which no iteration order changes.
\<close>

definition CliRetryStrategyConfig_from_dict ::
  "string list \<Rightarrow> (pyval \<Rightarrow> 'r) \<Rightarrow> pyval \<Rightarrow> 'r option" where
  "CliRetryStrategyConfig_from_dict fields super_from_dict kvs =
     (case kvs of
        PDict d \<Rightarrow>
          (let field_names = remdups (filter (\<lambda>n. dict_contains d n) fields);
               field_values = map (\<lambda>n. dict_get d n) (filter (\<lambda>n. truthy (dict_get d n)) field_names)
           in if field_values = [] then None
              else Some (super_from_dict kvs))
      | _ \<Rightarrow> Some (super_from_dict kvs))"

section \<open>CliMixin.add_params\<close>

text \<open>
  A click parameter with its flag spellings \<open>opts\<close>, and a command with its name and its
  parameter list. \<open>add_params\<close> mutates \<^verbatim>\<open>cmd.params\<close>: the model returns the command as
  the call leaves it, together with the error when one is raised.
\<close>

record parameter =
  param_name :: string
  opts :: "string list"

record command =
  name :: string
  params :: "parameter list"

text \<open>The inner loop \<^verbatim>\<open>for opt in param.opts\<close>, on \<open>existing_opts\<close> and \<^verbatim>\<open>cmd.params\<close>.\<close>

fun add_opts ::
  "string \<Rightarrow> parameter \<Rightarrow> string list \<Rightarrow> string list \<Rightarrow> parameter list
     \<Rightarrow> error option \<times> string list \<times> parameter list" where
  "add_opts cmd_name param [] existing_opts cmd_params = (None, existing_opts, cmd_params)"
| "add_opts cmd_name param (opt # rest) existing_opts cmd_params =
     (if opt \<in> set existing_opts
      then (Some (ValueError (opt @ '' is already defined on the command '' @ cmd_name)),
            existing_opts, cmd_params)
      else add_opts cmd_name param rest (existing_opts @ [opt]) (cmd_params @ [param]))"

text \<open>The outer loop \<^verbatim>\<open>for param in params\<close>.\<close>

fun add_each ::
  "string \<Rightarrow> parameter list \<Rightarrow> string list \<Rightarrow> parameter list
     \<Rightarrow> error option \<times> string list \<times> parameter list" where
  "add_each cmd_name [] existing_opts cmd_params = (None, existing_opts, cmd_params)"
| "add_each cmd_name (param # rest) existing_opts cmd_params =
     (case add_opts cmd_name param (opts param) existing_opts cmd_params of
        (Some e, existing_opts', cmd_params') \<Rightarrow> (Some e, existing_opts', cmd_params')
      | (None, existing_opts', cmd_params') \<Rightarrow> add_each cmd_name rest existing_opts' cmd_params')"

definition existing_opts_of :: "command \<Rightarrow> string list" where
  "existing_opts_of cmd = concat (map opts (params cmd))"

definition add_params :: "command \<Rightarrow> parameter list \<Rightarrow> error option \<times> command" where
  "add_params cmd new_params =
     (let existing_opts = existing_opts_of cmd;
          (raised, existing_opts', cmd_params') =
             add_each (name cmd) new_params existing_opts (params cmd)
      in (raised, cmd\<lparr>params := cmd_params'\<rparr>))"

section \<open>FileOrJson.convert\<close>

text \<open>
  The file system and the JSON decoder are outside the program: \<^verbatim>\<open>os.path.expanduser\<close>,
  \<^verbatim>\<open>os.path.abspath\<close>, \<^verbatim>\<open>os.path.isfile\<close>, \<^verbatim>\<open>Path.resolve\<close> and \<^verbatim>\<open>json.loads\<close> (with \<open>None\<close>
  for \<^verbatim>\<open>JSONDecodeError\<close>) are the fields of the environment. The calls to \<^verbatim>\<open>isfile\<close> and
  to \<^verbatim>\<open>json.loads\<close> are logged in the order in which they are made.
\<close>

record environment =
  expanduser :: "string \<Rightarrow> string"
  abspath :: "string \<Rightarrow> string"
  isfile :: "string \<Rightarrow> bool"
  resolve :: "string \<Rightarrow> string"
  json_loads :: "string \<Rightarrow> pyval option"

datatype call = Call_isfile string | Call_json_loads string

text \<open>
  A value that is no string makes \<^verbatim>\<open>os.path.expanduser\<close> raise \<^verbatim>\<open>TypeError\<close>, so the
  test \<^verbatim>\<open>isinstance(value, str)\<close> is reached by strings only.
\<close>

definition FileOrJson_convert ::
  "environment \<Rightarrow> bool \<Rightarrow> pyval \<Rightarrow> (error + pyval) \<times> call list" where
  "FileOrJson_convert env allow_raw_str v =
     (case v of
        PStr s \<Rightarrow>
          (let full_path = abspath env (expanduser env s)
           in if isfile env full_path
              then (Inr (PStr (resolve env full_path)), [Call_isfile full_path])
              else
                (case json_loads env s of
                   Some j \<Rightarrow> (Inr j, [Call_isfile full_path, Call_json_loads s])
                 | None \<Rightarrow>
                     if allow_raw_str
                     then (Inr (PStr s), [Call_isfile full_path, Call_json_loads s])
                     else (Inl (BadParameter
                                  (s @ '' is not a valid json string nor an existing filepath.'')),
                           [Call_isfile full_path, Call_json_loads s])))
      | _ \<Rightarrow> (Inl TypeError, []))"

section \<open>DelimitedString.convert\<close>

text \<open>
  Characters are the code points below 256; \<open>isspace\<close> is \<^verbatim>\<open>str.isspace\<close> on them, the
  characters \<^verbatim>\<open>str.strip()\<close> removes.
\<close>

definition isspace :: "char \<Rightarrow> bool" where
  "isspace c =
     (let n = (of_char c :: nat)
      in (9 \<le> n \<and> n \<le> 13) \<or> (28 \<le> n \<and> n \<le> 32) \<or> n = 133 \<or> n = 160)"

definition strip :: "string \<Rightarrow> string" where
  "strip s = rev (dropWhile isspace (rev (dropWhile isspace s)))"

text \<open>
  \<^verbatim>\<open>s.split(sep)\<close> for a separator that is not empty: the occurrences of \<open>sep\<close> are
  taken from the left, without overlap, and the pieces between them are returned.
\<close>

fun split_at :: "string \<Rightarrow> string \<Rightarrow> string list" where
  "split_at sep [] = [[]]"
| "split_at sep (c # cs) =
     (if sep \<noteq> [] \<and> startswith (c # cs) sep
      then [] # split_at sep (drop (length sep) (c # cs))
      else (case split_at sep cs of
              [] \<Rightarrow> [[c]]
            | piece # pieces \<Rightarrow> (c # piece) # pieces))"

text \<open>\<^verbatim>\<open>s.split(sep)\<close>; an empty separator raises \<^verbatim>\<open>ValueError\<close>.\<close>

definition str_split :: "string \<Rightarrow> string \<Rightarrow> error + string list" where
  "str_split s sep =
     (if sep = [] then Inl (ValueError ''empty separator'') else Inr (split_at sep s))"

text \<open>\<^verbatim>\<open>sep.join(xs)\<close>\<close>

fun str_join :: "string \<Rightarrow> string list \<Rightarrow> string" where
  "str_join sep [] = []"
| "str_join sep [x] = x"
| "str_join sep (x # y # ys) = x @ sep @ str_join sep (y # ys)"

record delimited_string =
  choices :: "string list"
  delimiter :: string

text \<open>\<^verbatim>\<open>DelimitedString.__init__\<close>, with the defaults \<^verbatim>\<open>delimiter=","\<close> and \<^verbatim>\<open>choices=None\<close>.\<close>

definition DelimitedString_init :: "string \<Rightarrow> string list option \<Rightarrow> delimited_string" where
  "DelimitedString_init delim chs =
     \<lparr>choices = (case chs of None \<Rightarrow> [] | Some c \<Rightarrow> if c \<noteq> [] then c else []),
      delimiter = delim\<rparr>"

text \<open>
  \<^verbatim>\<open>str(v)\<close> of a list element and \<^verbatim>\<open>repr(s)\<close> of a string are Python built-ins, taken
  as parameters. \<^verbatim>\<open>ngettext\<close> without a translation catalogue gives the singular message
  for one choice and the plural one otherwise.
\<close>

record builtins =
  py_str :: "pyval \<Rightarrow> string"
  py_repr :: "string \<Rightarrow> string"

fun check_choices :: "builtins \<Rightarrow> string list \<Rightarrow> string list \<Rightarrow> error option" where
  "check_choices bi chs [] = None"
| "check_choices bi chs (s # rest) =
     (if s \<notin> set chs
      then (let choices_str = str_join '', '' (map (py_repr bi) chs)
            in Some (BadParameter
                 (if length chs = 1
                  then py_repr bi s @ '' is not '' @ choices_str @ ''.''
                  else py_repr bi s @ '' is not one of '' @ choices_str @ ''.'')))
      else check_choices bi chs rest)"

definition DelimitedString_convert ::
  "builtins \<Rightarrow> delimited_string \<Rightarrow> pyval \<Rightarrow> error + string list" where
  "DelimitedString_convert bi self v =
     (case (case v of
              PList vs \<Rightarrow> Inr (map (\<lambda>x. strip (py_str bi x)) vs)
            | PStr s \<Rightarrow>
                (case str_split s (delimiter self) of
                   Inl e \<Rightarrow> Inl e
                 | Inr pieces \<Rightarrow> Inr (map strip pieces))
            | _ \<Rightarrow> Inl AttributeError) of
        Inl e \<Rightarrow> Inl e
      | Inr split \<Rightarrow>
          if choices self = [] then Inr split
          else (case check_choices bi (choices self) split of
                  Some e \<Rightarrow> Inl e
                | None \<Rightarrow> Inr split))"

text \<open>
  A separator is unbordered when none of its proper, non-empty prefixes is also a suffix
  of it. Every separator of one character is: \<^verbatim>\<open>","\<close>, the default, and \<^verbatim>\<open>"+"\<close>, the two
  this file uses, and so is \<^verbatim>\<open>", "\<close>; \<^verbatim>\<open>"::"\<close> is not.
\<close>

definition unbordered :: "string \<Rightarrow> bool" where
  "unbordered d =
     (d \<noteq> [] \<and> list_all (\<lambda>k. take k d \<noteq> drop (length d - k) d) [1..<length d])"

section \<open>Facts about dictionaries\<close>

lemma map_of_fold_update:
  "map_of (fold (\<lambda>(k, v) d. AList.update k v d) ps acc) = map_of acc ++ map_of (rev ps)"
proof (induction ps arbitrary: acc)
  case Nil
  then show ?case by simp
next
  case (Cons p ps)
  obtain k v where p: "p = (k, v)" by (cases p)
  show ?case
    by (auto simp: p Cons.IH update_conv' map_add_def fun_eq_iff split: option.splits)
qed

lemma map_of_dict_of_pairs: "map_of (dict_of_pairs ps) = map_of (rev ps)"
  by (simp add: dict_of_pairs_def map_of_fold_update)

lemma fold_update_Nil_iff:
  "fold (\<lambda>(k, v) d. AList.update k v d) ps acc = [] \<longleftrightarrow> ps = [] \<and> acc = []"
  by (induction ps arbitrary: acc) (auto split: prod.splits)

lemma dict_of_pairs_Nil_iff: "dict_of_pairs ps = [] \<longleftrightarrow> ps = []"
  by (simp add: dict_of_pairs_def fold_update_Nil_iff)

lemma keys_fold_update:
  "fst ` set (fold (\<lambda>(k, v) d. AList.update k v d) ps acc) = fst ` set acc \<union> fst ` set ps"
  by (induction ps arbitrary: acc) (auto simp: dom_update split: prod.splits)

lemma keys_dict_of_pairs: "fst ` set (dict_of_pairs ps) = fst ` set ps"
  by (simp add: dict_of_pairs_def keys_fold_update)

lemma startswith_drop_iff:
  "startswith k p \<and> drop (length p) k = k' \<longleftrightarrow> k = p @ k'"
  unfolding startswith_def by (metis append_eq_conv_conj append_take_drop_id)

lemma map_of_strip_prefix_items:
  "map_of (strip_prefix_items p kvs) k' = map_of kvs (p @ k')"
proof (induction kvs)
  case Nil
  then show ?case by (simp add: strip_prefix_items_def)
next
  case (Cons kv kvs)
  obtain k v where kv: "kv = (k, v)" by (cases kv)
  from Cons.IH show ?case
    using startswith_drop_iff [of k p k']
    by (auto simp: strip_prefix_items_def kv)
qed

lemma rev_strip_prefix_items:
  "rev (strip_prefix_items p kvs) = strip_prefix_items p (rev kvs)"
  by (simp add: strip_prefix_items_def rev_map rev_filter)

lemma map_of_rev_dict: "is_dict d \<Longrightarrow> map_of (rev d) = map_of d"
proof (induction d)
  case Nil
  then show ?case by simp
next
  case (Cons kv d)
  obtain k v where kv: "kv = (k, v)" by (cases kv)
  from Cons.prems have k: "k \<notin> fst ` set d" and d: "is_dict d"
    by (auto simp: is_dict_def kv)
  have "map_of (rev (kv # d)) = [k \<mapsto> v] ++ map_of d"
    using Cons.IH [OF d] by (simp add: kv)
  also have "\<dots> = (map_of d)(k \<mapsto> v)"
  proof -
    from k have "map_of d k = None" by (simp add: map_of_eq_None_iff)
    then show ?thesis by (auto simp: map_add_def fun_eq_iff split: option.splits)
  qed
  finally show ?case by (simp add: kv)
qed

lemma map_of_stripped_dict:
  "is_dict d \<Longrightarrow> map_of (dict_of_pairs (strip_prefix_items p d)) k = map_of d (p @ k)"
  by (simp add: map_of_dict_of_pairs rev_strip_prefix_items map_of_strip_prefix_items
      map_of_rev_dict)

lemma dict_get_stripped_dict:
  "is_dict d \<Longrightarrow> dict_get (dict_of_pairs (strip_prefix_items p d)) k = dict_get d (p @ k)"
  by (simp add: dict_get_def map_of_stripped_dict)

lemma strip_prefix_items_Nil_iff:
  "strip_prefix_items p d = [] \<longleftrightarrow> (\<forall>k \<in> fst ` set d. \<not> startswith k p)"
  by (auto simp: strip_prefix_items_def filter_empty_conv)

lemma dict_get_delete: "k' \<noteq> k \<Longrightarrow> dict_get (AList.delete k d) k' = dict_get d k'"
  by (simp add: dict_get_def)

lemma is_dict_delete: "is_dict d \<Longrightarrow> is_dict (AList.delete k d)"
  by (simp add: is_dict_def distinct_delete)

lemma map_of_prefixed_dict:
  assumes "is_dict os"
  shows "map_of (dict_of_pairs ((k0, v0) # strip_prefix_items p os)) k =
           (case map_of os (p @ k) of Some v \<Rightarrow> Some v
            | None \<Rightarrow> if k = k0 then Some v0 else None)"
proof -
  have "map_of (rev (strip_prefix_items p os)) k = map_of os (p @ k)"
    using assms
    by (simp add: rev_strip_prefix_items map_of_strip_prefix_items map_of_rev_dict)
  then show ?thesis
    by (simp add: map_of_dict_of_pairs map_add_def split: option.splits)
qed

lemma iter_kv_pairs_strategy:
  "truthy ce \<or> truthy cs \<Longrightarrow>
   iter_kv_pairs ce cs options =
     (''chunking_strategy'', if truthy cs then cs else PStr ''by_title'')
     # strip_prefix_items ''chunk_'' options"
  by (auto simp: iter_kv_pairs_def)

section \<open>Chunking reconciliation\<close>

text \<open>
  C1. When both the legacy flag \<^verbatim>\<open>chunk_elements\<close> and the strategy flag
  \<^verbatim>\<open>chunking_strategy\<close> are unset (absent or falsy), \<^verbatim>\<open>CliChunkingConfig.from_dict\<close> returns
  \<^verbatim>\<open>None\<close> on the dict, whatever else it holds: tuning flags with the prefix \<^verbatim>\<open>chunk_\<close>
  do not enable chunking.
\<close>

theorem chunking_absent_without_strategy_flags:
  "\<not> truthy (dict_get d ''chunk_elements'') \<Longrightarrow>
   \<not> truthy (dict_get d ''chunking_strategy'') \<Longrightarrow>
   CliChunkingConfig_from_dict super_from_dict (PDict d) = None"
  by (simp add: CliChunkingConfig_from_dict_def dict_pop_def dict_get_delete)

theorem chunking_absent_without_strategy_flags_witness:
  "\<not> truthy (dict_get [(''chunk_elements'', PBool False), (''chunk_max_characters'', PInt 500)]
                ''chunk_elements'') \<and>
   \<not> truthy (dict_get [(''chunk_elements'', PBool False), (''chunk_max_characters'', PInt 500)]
                ''chunking_strategy'') \<and>
   CliChunkingConfig_from_dict id
     (PDict [(''chunk_elements'', PBool False), (''chunk_max_characters'', PInt 500)]) = None"
proof -
  let ?d = "[(''chunk_elements'', PBool False), (''chunk_max_characters'', PInt 500)]"
  have h1: "\<not> truthy (dict_get ?d ''chunk_elements'')" by (simp add: dict_get_def)
  have h2: "\<not> truthy (dict_get ?d ''chunking_strategy'')" by (simp add: dict_get_def)
  show ?thesis
    using h1 h2 chunking_absent_without_strategy_flags [OF h1 h2, of id] by simp
qed

text \<open>
  C2 (amended). For a dict in which \<^verbatim>\<open>chunk_elements\<close> or \<^verbatim>\<open>chunking_strategy\<close> is set and
  which has no key \<^verbatim>\<open>chunk_chunking_strategy\<close>, the base constructor receives a mapping whose
  \<^verbatim>\<open>chunking_strategy\<close> entry is the value of the \<^verbatim>\<open>chunking_strategy\<close> flag when that flag
  is set (whether or not \<^verbatim>\<open>chunk_elements\<close> is set too) and \<^verbatim>\<open>"by_title"\<close> when only the
  legacy flag is set; every other entry is a remaining \<^verbatim>\<open>chunk_\<close> flag with its prefix
  removed, and \<^verbatim>\<open>chunk_elements\<close> itself is not passed on.
\<close>

theorem chunking_strategy_precedence:
  assumes dict: "is_dict d"
    and no_clash: "\<not> dict_contains d ''chunk_chunking_strategy''"
    and requested: "truthy (dict_get d ''chunk_elements'') \<or> truthy (dict_get d ''chunking_strategy'')"
  shows "\<exists>new_kvs.
           CliChunkingConfig_from_dict super_from_dict (PDict d) =
             Some (super_from_dict (PDict new_kvs)) \<and>
           dict_get new_kvs ''chunking_strategy'' =
             (if truthy (dict_get d ''chunking_strategy'') then dict_get d ''chunking_strategy''
              else PStr ''by_title'') \<and>
           (\<forall>k. k \<noteq> ''chunking_strategy'' \<longrightarrow>
              map_of new_kvs k = (if k = ''elements'' then None else map_of d (''chunk_'' @ k)))"
proof -
  define ce where "ce = dict_get d ''chunk_elements''"
  define cs where "cs = dict_get d ''chunking_strategy''"
  define options where
    "options = AList.delete ''chunking_strategy'' (AList.delete ''chunk_elements'' d)"
  define strategy where "strategy = (if truthy cs then cs else PStr ''by_title'')"
  define new_kvs where "new_kvs = dict_of_pairs (iter_kv_pairs ce cs options)"
  have req: "truthy ce \<or> truthy cs"
    using requested by (simp add: ce_def cs_def)
  have opts_dict: "is_dict options"
    using dict by (simp add: options_def is_dict_delete)
  have lookup_opts: "map_of options key =
      (if key = ''chunking_strategy'' \<or> key = ''chunk_elements'' then None else map_of d key)" for key
    by (simp add: options_def delete_conv')
  have items: "iter_kv_pairs ce cs options =
      (''chunking_strategy'', strategy) # strip_prefix_items ''chunk_'' options"
    unfolding strategy_def by (rule iter_kv_pairs_strategy [OF req])
  have lookup: "map_of new_kvs k =
      (case map_of options (''chunk_'' @ k) of Some v \<Rightarrow> Some v
       | None \<Rightarrow> if k = ''chunking_strategy'' then Some strategy else None)" for k
    unfolding new_kvs_def items by (rule map_of_prefixed_dict [OF opts_dict])
  have absent: "map_of d ''chunk_chunking_strategy'' = None"
    using no_clash by (simp add: dict_contains_def map_of_eq_None_iff)
  have strat: "dict_get new_kvs ''chunking_strategy'' = strategy"
    by (simp add: dict_get_def lookup lookup_opts absent)
  have others: "map_of new_kvs k = (if k = ''elements'' then None else map_of d (''chunk_'' @ k))"
    if "k \<noteq> ''chunking_strategy''" for k
    using that by (simp add: lookup lookup_opts split: option.splits)
  have nonempty: "new_kvs \<noteq> []"
    by (simp add: new_kvs_def dict_of_pairs_Nil_iff items)
  have "CliChunkingConfig_from_dict super_from_dict (PDict d) =
          Some (super_from_dict (PDict new_kvs))"
    using req nonempty
    by (auto simp: CliChunkingConfig_from_dict_def dict_pop_def dict_get_delete Let_def
          ce_def cs_def options_def new_kvs_def)
  with strat others show ?thesis
    unfolding strategy_def cs_def by blast
qed

theorem chunking_strategy_precedence_witness:
  "is_dict [(''chunk_elements'', PBool True), (''chunking_strategy'', PStr ''basic''),
            (''chunk_max_characters'', PInt 500)] \<and>
   \<not> dict_contains [(''chunk_elements'', PBool True), (''chunking_strategy'', PStr ''basic''),
                     (''chunk_max_characters'', PInt 500)] ''chunk_chunking_strategy'' \<and>
   truthy (dict_get [(''chunk_elements'', PBool True), (''chunking_strategy'', PStr ''basic''),
                     (''chunk_max_characters'', PInt 500)] ''chunking_strategy'') \<and>
   (\<exists>new_kvs.
      CliChunkingConfig_from_dict id
        (PDict [(''chunk_elements'', PBool True), (''chunking_strategy'', PStr ''basic''),
                (''chunk_max_characters'', PInt 500)]) = Some (PDict new_kvs) \<and>
      dict_get new_kvs ''chunking_strategy'' = PStr ''basic'' \<and>
      map_of new_kvs ''max_characters'' = Some (PInt 500) \<and>
      map_of new_kvs ''elements'' = None)"
proof -
  let ?d = "[(''chunk_elements'', PBool True), (''chunking_strategy'', PStr ''basic''),
             (''chunk_max_characters'', PInt 500)]"
  have h1: "is_dict ?d" by (simp add: is_dict_def)
  have h2: "\<not> dict_contains ?d ''chunk_chunking_strategy''" by (simp add: dict_contains_def)
  have h3: "truthy (dict_get ?d ''chunking_strategy'')" by (simp add: dict_get_def)
  from chunking_strategy_precedence [OF h1 h2 disjI2 [OF h3], of id]
  obtain new_kvs where
    r: "CliChunkingConfig_from_dict id (PDict ?d) = Some (id (PDict new_kvs))" and
    s: "dict_get new_kvs ''chunking_strategy'' =
          (if truthy (dict_get ?d ''chunking_strategy'') then dict_get ?d ''chunking_strategy''
           else PStr ''by_title'')" and
    o: "\<forall>k. k \<noteq> ''chunking_strategy'' \<longrightarrow>
          map_of new_kvs k = (if k = ''elements'' then None else map_of ?d (''chunk_'' @ k))"
    by blast
  from r have r': "CliChunkingConfig_from_dict id (PDict ?d) = Some (PDict new_kvs)" by simp
  from s have s': "dict_get new_kvs ''chunking_strategy'' = PStr ''basic''"
    by (simp add: dict_get_def)
  from o [rule_format, of "''max_characters''"]
  have o1: "map_of new_kvs ''max_characters'' = Some (PInt 500)" by simp
  from o [rule_format, of "''elements''"]
  have o2: "map_of new_kvs ''elements'' = None" by simp
  from h1 h2 h3 r' s' o1 o2 show ?thesis by blast
qed

text \<open>
  Without the condition on \<^verbatim>\<open>chunk_chunking_strategy\<close> the statement of C2 fails: that key
  loses its prefix, becomes \<^verbatim>\<open>chunking_strategy\<close> and replaces the resolved strategy.
\<close>

theorem chunking_strategy_override_counterexample:
  "dict_get [(''chunking_strategy'', PStr ''basic''), (''chunk_chunking_strategy'', PStr ''by_title'')]
     ''chunking_strategy'' = PStr ''basic'' \<and>
   CliChunkingConfig_from_dict id
     (PDict [(''chunking_strategy'', PStr ''basic''), (''chunk_chunking_strategy'', PStr ''by_title'')])
     = Some (PDict [(''chunking_strategy'', PStr ''by_title'')])"
  by (simp add: CliChunkingConfig_from_dict_def dict_pop_def dict_get_def dict_of_pairs_def
      iter_kv_pairs_def strip_prefix_items_def startswith_def)

text \<open>
  C10. On a dict, \<^verbatim>\<open>CliChunkingConfig.from_dict\<close> returns \<^verbatim>\<open>None\<close> exactly when both flags
  are unset. Past the early return the merged mapping always has a \<^verbatim>\<open>chunking_strategy\<close>
  entry, so it is never empty and the last test \<^verbatim>\<open>len(new_kvs) == 0\<close> never holds.
\<close>

theorem chunking_none_iff_flags_unset:
  "(CliChunkingConfig_from_dict super_from_dict (PDict d) = None \<longleftrightarrow>
      \<not> truthy (dict_get d ''chunk_elements'') \<and> \<not> truthy (dict_get d ''chunking_strategy'')) \<and>
   (truthy (dict_get d ''chunk_elements'') \<or> truthy (dict_get d ''chunking_strategy'') \<longrightarrow>
      (\<exists>new_kvs.
         CliChunkingConfig_from_dict super_from_dict (PDict d) =
           Some (super_from_dict (PDict new_kvs)) \<and>
         dict_contains new_kvs ''chunking_strategy'' \<and> length new_kvs \<noteq> 0))"
proof -
  define ce where "ce = dict_get d ''chunk_elements''"
  define cs where "cs = dict_get d ''chunking_strategy''"
  define options where
    "options = AList.delete ''chunking_strategy'' (AList.delete ''chunk_elements'' d)"
  define new_kvs where "new_kvs = dict_of_pairs (iter_kv_pairs ce cs options)"
  have unfolded: "CliChunkingConfig_from_dict super_from_dict (PDict d) =
      (if \<not> truthy ce \<and> \<not> truthy cs then None
       else if length new_kvs = 0 then None else Some (super_from_dict (PDict new_kvs)))"
    by (simp add: CliChunkingConfig_from_dict_def dict_pop_def dict_get_delete Let_def
          ce_def cs_def options_def new_kvs_def)
  have key: "dict_contains new_kvs ''chunking_strategy''" if "truthy ce \<or> truthy cs"
    using keys_dict_of_pairs [of "iter_kv_pairs ce cs options"]
    by (simp add: dict_contains_def new_kvs_def iter_kv_pairs_strategy [OF that])
  have nonempty: "length new_kvs \<noteq> 0" if "truthy ce \<or> truthy cs"
    using key [OF that] by (auto simp: dict_contains_def)
  show ?thesis
    using key nonempty unfolding unfolded ce_def [symmetric] cs_def [symmetric]
    by auto
qed

theorem chunking_none_iff_flags_unset_witness:
  "truthy (dict_get [(''chunk_elements'', PBool True)] ''chunk_elements'') \<and>
   CliChunkingConfig_from_dict id (PDict [(''chunk_elements'', PBool True)]) \<noteq> None \<and>
   (\<exists>new_kvs.
      CliChunkingConfig_from_dict id (PDict [(''chunk_elements'', PBool True)]) =
        Some (PDict new_kvs) \<and>
      dict_contains new_kvs ''chunking_strategy'' \<and> length new_kvs \<noteq> 0)"
proof -
  let ?d = "[(''chunk_elements'', PBool True)]"
  have h: "truthy (dict_get ?d ''chunk_elements'')" by (simp add: dict_get_def)
  note t = chunking_none_iff_flags_unset [of id ?d]
  from t h have c1: "CliChunkingConfig_from_dict id (PDict ?d) \<noteq> None" by blast
  from t h have c2: "\<exists>new_kvs.
      CliChunkingConfig_from_dict id (PDict ?d) = Some (PDict new_kvs) \<and>
      dict_contains new_kvs ''chunking_strategy'' \<and> length new_kvs \<noteq> 0"
    by simp
  from h c1 c2 show ?thesis by blast
qed

section \<open>Embedding reconciliation\<close>

text \<open>
  C6. On a dict, \<^verbatim>\<open>CliEmbeddingConfig.from_dict\<close> returns a record exactly when
  \<^verbatim>\<open>embedding_provider\<close> is set (truthy), and \<^verbatim>\<open>None\<close> otherwise, whatever the other
  \<^verbatim>\<open>embedding_\<close> keys hold. When the provider is set, the base constructor receives the
  \<^verbatim>\<open>embedding_\<close> entries with the prefix removed and nothing else, so every field that was
  not given is left to the defaults of the base class.
\<close>

theorem embedding_present_iff_provider_set:
  assumes dict: "is_dict d"
  shows "(CliEmbeddingConfig_from_dict super_from_dict (PDict d) = None \<longleftrightarrow>
            \<not> truthy (dict_get d ''embedding_provider'')) \<and>
         (truthy (dict_get d ''embedding_provider'') \<longrightarrow>
            (\<exists>new_kvs.
               CliEmbeddingConfig_from_dict super_from_dict (PDict d) =
                 Some (super_from_dict (PDict new_kvs)) \<and>
               (\<forall>k. map_of new_kvs k = map_of d (''embedding_'' @ k))))"
proof -
  define new_kvs where "new_kvs = dict_of_pairs (strip_prefix_items ''embedding_'' d)"
  have lookup: "map_of new_kvs k = map_of d (''embedding_'' @ k)" for k
    using map_of_stripped_dict [OF dict] by (simp add: new_kvs_def)
  have provider: "dict_get new_kvs ''provider'' = dict_get d ''embedding_provider''"
    using dict_get_stripped_dict [OF dict, of "''embedding_''" "''provider''"]
    by (simp add: new_kvs_def)
  have empty: "\<not> truthy (dict_get new_kvs ''provider'')" if "new_kvs = []"
    using that by (simp add: dict_get_def)
  have unfolded: "CliEmbeddingConfig_from_dict super_from_dict (PDict d) =
      (if new_kvs = [] then None
       else if \<not> truthy (dict_get new_kvs ''provider'') then None
       else Some (super_from_dict (PDict new_kvs)))"
    by (simp add: CliEmbeddingConfig_from_dict_def Let_def new_kvs_def)
  show ?thesis
    using empty lookup unfolding unfolded provider [symmetric]
    by auto
qed

theorem embedding_present_iff_provider_set_witness:
  "is_dict [(''embedding_provider'', PStr ''langchain-openai''), (''embedding_api_key'', PStr ''k'')] \<and>
   truthy (dict_get [(''embedding_provider'', PStr ''langchain-openai''),
                     (''embedding_api_key'', PStr ''k'')] ''embedding_provider'') \<and>
   CliEmbeddingConfig_from_dict id
     (PDict [(''embedding_provider'', PStr ''langchain-openai''), (''embedding_api_key'', PStr ''k'')])
     \<noteq> None \<and>
   is_dict [(''embedding_api_key'', PStr ''k'')] \<and>
   \<not> truthy (dict_get [(''embedding_api_key'', PStr ''k'')] ''embedding_provider'') \<and>
   CliEmbeddingConfig_from_dict id (PDict [(''embedding_api_key'', PStr ''k'')]) = None"
proof -
  let ?d1 = "[(''embedding_provider'', PStr ''langchain-openai''), (''embedding_api_key'', PStr ''k'')]"
  let ?d2 = "[(''embedding_api_key'', PStr ''k'')]"
  have d1: "is_dict ?d1" by (simp add: is_dict_def)
  have d2: "is_dict ?d2" by (simp add: is_dict_def)
  have p1: "truthy (dict_get ?d1 ''embedding_provider'')" by (simp add: dict_get_def)
  have p2: "\<not> truthy (dict_get ?d2 ''embedding_provider'')" by (simp add: dict_get_def)
  from embedding_present_iff_provider_set [OF d1, of id] p1
  have c1: "CliEmbeddingConfig_from_dict id (PDict ?d1) \<noteq> None" by blast
  from embedding_present_iff_provider_set [OF d2, of id] p2
  have c2: "CliEmbeddingConfig_from_dict id (PDict ?d2) = None" by blast
  from d1 d2 p1 p2 c1 c2 show ?thesis by blast
qed

section \<open>Permissions reconciliation\<close>

lemma permissions_message_names_flags:
  "sublist ''--permissions-application-id'' permissions_message"
  "sublist ''--permissions-client-cred'' permissions_message"
  "sublist ''--permissions-tenant'' permissions_message"
proof -
  let ?head = "''Please provide either none or all of the following optional values:'' @ [CHR 0x0A]"
  have "permissions_message =
      ?head @ ''--permissions-application-id''
      @ ([CHR 0x0A] @ ''--permissions-client-cred'' @ [CHR 0x0A] @ ''--permissions-tenant'')"
    by (simp add: permissions_message_def)
  then show "sublist ''--permissions-application-id'' permissions_message"
    by (metis sublist_appendI)
  have "permissions_message =
      (?head @ ''--permissions-application-id'' @ [CHR 0x0A]) @ ''--permissions-client-cred''
      @ ([CHR 0x0A] @ ''--permissions-tenant'')"
    by (simp add: permissions_message_def)
  then show "sublist ''--permissions-client-cred'' permissions_message"
    by (metis sublist_appendI)
  have "permissions_message =
      (?head @ ''--permissions-application-id'' @ [CHR 0x0A] @ ''--permissions-client-cred''
       @ [CHR 0x0A]) @ ''--permissions-tenant'' @ []"
    by (simp add: permissions_message_def)
  then show "sublist ''--permissions-tenant'' permissions_message"
    by (metis sublist_appendI)
qed

text \<open>
  C3. On a dict, \<^verbatim>\<open>CliPermissionsConfig.from_dict\<close> raises \<^verbatim>\<open>ValueError\<close> when one or two
  of \<^verbatim>\<open>permissions_application_id\<close>, \<^verbatim>\<open>permissions_client_cred\<close>, \<^verbatim>\<open>permissions_tenant\<close>
  are set (truthy) and the rest are not, with a message that names the three flags; it
  returns a record built from the stripped entries when all three are set; and it returns
  \<^verbatim>\<open>None\<close> when the dict has no key with the prefix \<^verbatim>\<open>permissions_\<close>.
\<close>

theorem permissions_all_or_none:
  "((truthy (dict_get d ''permissions_application_id'') \<or>
     truthy (dict_get d ''permissions_client_cred'') \<or>
     truthy (dict_get d ''permissions_tenant'')) \<and>
    \<not> (truthy (dict_get d ''permissions_application_id'') \<and>
       truthy (dict_get d ''permissions_client_cred'') \<and>
       truthy (dict_get d ''permissions_tenant'')) \<longrightarrow>
      CliPermissionsConfig_from_dict super_from_dict (PDict d) =
        Inl (ValueError permissions_message) \<and>
      sublist ''--permissions-application-id'' permissions_message \<and>
      sublist ''--permissions-client-cred'' permissions_message \<and>
      sublist ''--permissions-tenant'' permissions_message) \<and>
   (is_dict d \<and>
    truthy (dict_get d ''permissions_application_id'') \<and>
    truthy (dict_get d ''permissions_client_cred'') \<and>
    truthy (dict_get d ''permissions_tenant'') \<longrightarrow>
      (\<exists>new_kvs.
         CliPermissionsConfig_from_dict super_from_dict (PDict d) =
           Inr (Some (super_from_dict (PDict new_kvs))) \<and>
         dict_get new_kvs ''application_id'' = dict_get d ''permissions_application_id'' \<and>
         dict_get new_kvs ''client_cred'' = dict_get d ''permissions_client_cred'' \<and>
         dict_get new_kvs ''tenant'' = dict_get d ''permissions_tenant'' \<and>
         (\<forall>k. map_of new_kvs k = map_of d (''permissions_'' @ k)))) \<and>
   ((\<forall>k \<in> set (map fst d). \<not> startswith k ''permissions_'') \<longrightarrow>
      CliPermissionsConfig_from_dict super_from_dict (PDict d) = Inr None)"
proof (intro conjI impI)
  assume "(truthy (dict_get d ''permissions_application_id'') \<or>
     truthy (dict_get d ''permissions_client_cred'') \<or>
     truthy (dict_get d ''permissions_tenant'')) \<and>
    \<not> (truthy (dict_get d ''permissions_application_id'') \<and>
       truthy (dict_get d ''permissions_client_cred'') \<and>
       truthy (dict_get d ''permissions_tenant''))"
  then show "CliPermissionsConfig_from_dict super_from_dict (PDict d) =
        Inl (ValueError permissions_message)"
    by (auto simp: CliPermissionsConfig_from_dict_def Let_def)
next
  assume all: "is_dict d \<and>
    truthy (dict_get d ''permissions_application_id'') \<and>
    truthy (dict_get d ''permissions_client_cred'') \<and>
    truthy (dict_get d ''permissions_tenant'')"
  define new_kvs where "new_kvs = dict_of_pairs (strip_prefix_items ''permissions_'' d)"
  from all have dict: "is_dict d" by simp
  have get: "dict_get new_kvs k = dict_get d (''permissions_'' @ k)" for k
    unfolding new_kvs_def by (rule dict_get_stripped_dict [OF dict])
  have lookup: "map_of new_kvs k = map_of d (''permissions_'' @ k)" for k
    unfolding new_kvs_def by (rule map_of_stripped_dict [OF dict])
  from all have "truthy (dict_get new_kvs ''tenant'')" by (simp add: get)
  then have nonempty: "new_kvs \<noteq> []" by (auto simp: dict_get_def)
  have "CliPermissionsConfig_from_dict super_from_dict (PDict d) =
          Inr (Some (super_from_dict (PDict new_kvs)))"
    using all nonempty
    by (simp add: CliPermissionsConfig_from_dict_def Let_def new_kvs_def)
  then show "\<exists>new_kvs.
         CliPermissionsConfig_from_dict super_from_dict (PDict d) =
           Inr (Some (super_from_dict (PDict new_kvs))) \<and>
         dict_get new_kvs ''application_id'' = dict_get d ''permissions_application_id'' \<and>
         dict_get new_kvs ''client_cred'' = dict_get d ''permissions_client_cred'' \<and>
         dict_get new_kvs ''tenant'' = dict_get d ''permissions_tenant'' \<and>
         (\<forall>k. map_of new_kvs k = map_of d (''permissions_'' @ k))"
    using get [of "''application_id''"] get [of "''client_cred''"] get [of "''tenant''"] lookup
    by (intro exI [of _ new_kvs]) simp
next
  assume none: "\<forall>k \<in> set (map fst d). \<not> startswith k ''permissions_''"
  have absent: "dict_get d k = PNone" if "startswith k ''permissions_''" for k
  proof -
    from none that have "k \<notin> fst ` set d" by auto
    then show ?thesis by (simp add: dict_get_def map_of_eq_None_iff [THEN iffD2])
  qed
  have empty: "strip_prefix_items ''permissions_'' d = []"
    using none by (simp add: strip_prefix_items_Nil_iff)
  show "CliPermissionsConfig_from_dict super_from_dict (PDict d) = Inr None"
    by (simp add: CliPermissionsConfig_from_dict_def Let_def empty dict_of_pairs_def
        absent startswith_def)
qed (rule permissions_message_names_flags)+

theorem permissions_all_or_none_witness:
  "(truthy (dict_get [(''permissions_tenant'', PStr ''contoso'')] ''permissions_tenant'') \<and>
    \<not> truthy (dict_get [(''permissions_tenant'', PStr ''contoso'')] ''permissions_client_cred'') \<and>
    CliPermissionsConfig_from_dict id (PDict [(''permissions_tenant'', PStr ''contoso'')]) =
      Inl (ValueError permissions_message)) \<and>
   (is_dict [(''permissions_application_id'', PStr ''app''),
             (''permissions_client_cred'', PStr ''cred''),
             (''permissions_tenant'', PStr ''contoso'')] \<and>
    truthy (dict_get [(''permissions_application_id'', PStr ''app''),
                      (''permissions_client_cred'', PStr ''cred''),
                      (''permissions_tenant'', PStr ''contoso'')] ''permissions_application_id'') \<and>
    truthy (dict_get [(''permissions_application_id'', PStr ''app''),
                      (''permissions_client_cred'', PStr ''cred''),
                      (''permissions_tenant'', PStr ''contoso'')] ''permissions_client_cred'') \<and>
    truthy (dict_get [(''permissions_application_id'', PStr ''app''),
                      (''permissions_client_cred'', PStr ''cred''),
                      (''permissions_tenant'', PStr ''contoso'')] ''permissions_tenant'') \<and>
    (\<exists>new_kvs.
       CliPermissionsConfig_from_dict id
         (PDict [(''permissions_application_id'', PStr ''app''),
                 (''permissions_client_cred'', PStr ''cred''),
                 (''permissions_tenant'', PStr ''contoso'')]) = Inr (Some (PDict new_kvs)) \<and>
       dict_get new_kvs ''application_id'' = PStr ''app'' \<and>
       dict_get new_kvs ''client_cred'' = PStr ''cred'' \<and>
       dict_get new_kvs ''tenant'' = PStr ''contoso'')) \<and>
   (\<not> (\<exists>k \<in> set (map fst [(''verbose'', PBool True)]). startswith k ''permissions_'') \<and>
    CliPermissionsConfig_from_dict id (PDict [(''verbose'', PBool True)]) = Inr None)"
proof -
  let ?d1 = "[(''permissions_tenant'', PStr ''contoso'')]"
  let ?d2 = "[(''permissions_application_id'', PStr ''app''),
              (''permissions_client_cred'', PStr ''cred''),
              (''permissions_tenant'', PStr ''contoso'')]"
  let ?d3 = "[(''verbose'', PBool True)]"
  have a1: "truthy (dict_get ?d1 ''permissions_tenant'')" by (simp add: dict_get_def)
  have a2: "\<not> truthy (dict_get ?d1 ''permissions_client_cred'')" by (simp add: dict_get_def)
  from permissions_all_or_none [of ?d1 id] a1 a2
  have c1: "CliPermissionsConfig_from_dict id (PDict ?d1) = Inl (ValueError permissions_message)"
    by blast
  have b0: "is_dict ?d2" by (simp add: is_dict_def)
  have b1: "truthy (dict_get ?d2 ''permissions_application_id'')" by (simp add: dict_get_def)
  have b2: "truthy (dict_get ?d2 ''permissions_client_cred'')" by (simp add: dict_get_def)
  have b3: "truthy (dict_get ?d2 ''permissions_tenant'')" by (simp add: dict_get_def)
  from permissions_all_or_none [of ?d2 id] b0 b1 b2 b3
  have "\<exists>new_kvs.
         CliPermissionsConfig_from_dict id (PDict ?d2) = Inr (Some (id (PDict new_kvs))) \<and>
         dict_get new_kvs ''application_id'' = dict_get ?d2 ''permissions_application_id'' \<and>
         dict_get new_kvs ''client_cred'' = dict_get ?d2 ''permissions_client_cred'' \<and>
         dict_get new_kvs ''tenant'' = dict_get ?d2 ''permissions_tenant'' \<and>
         (\<forall>k. map_of new_kvs k = map_of ?d2 (''permissions_'' @ k))"
    by blast
  then have c2: "\<exists>new_kvs.
       CliPermissionsConfig_from_dict id (PDict ?d2) = Inr (Some (PDict new_kvs)) \<and>
       dict_get new_kvs ''application_id'' = PStr ''app'' \<and>
       dict_get new_kvs ''client_cred'' = PStr ''cred'' \<and>
       dict_get new_kvs ''tenant'' = PStr ''contoso''"
    by (auto simp: dict_get_def)
  have e1: "\<forall>k \<in> set (map fst ?d3). \<not> startswith k ''permissions_''"
    by (simp add: startswith_def)
  from permissions_all_or_none [of ?d3 id] e1
  have c3: "CliPermissionsConfig_from_dict id (PDict ?d3) = Inr None"
    by blast
  from e1 have e2: "\<not> (\<exists>k \<in> set (map fst ?d3). startswith k ''permissions_'')"
    by blast
  from a1 a2 c1 b0 b1 b2 b3 c2 e2 c3 show ?thesis by blast
qed

section \<open>Option registration\<close>

text \<open>
  What the two loops do: without a collision every spelling is recorded and the parameter
  is appended once for each of its spellings; otherwise the first spelling that is already
  recorded is reported.
\<close>

lemma count_list_pos: "x \<in> set xs \<Longrightarrow> 0 < count_list xs x"
  by (induction xs) auto

lemma add_opts_ok:
  "distinct os \<Longrightarrow> set os \<inter> set ex = {} \<Longrightarrow>
   add_opts n p os ex cps = (None, ex @ os, cps @ replicate (length os) p)"
proof (induction os arbitrary: ex cps)
  case Nil
  then show ?case by simp
next
  case (Cons opt os)
  from Cons.prems have "opt \<notin> set ex" "distinct os" "set os \<inter> set (ex @ [opt]) = {}"
    by auto
  then show ?case
    using Cons.IH [of "ex @ [opt]" "cps @ [p]"] by (simp add: replicate_append_same)
qed

lemma add_opts_collision:
  "\<not> (distinct os \<and> set os \<inter> set ex = {}) \<Longrightarrow>
   \<exists>opt ex' cps'.
     add_opts n p os ex cps =
       (Some (ValueError (opt @ '' is already defined on the command '' @ n)), ex', cps') \<and>
     opt \<in> set os \<and> (opt \<in> set ex \<or> 1 < count_list os opt)"
proof (induction os arbitrary: ex cps)
  case Nil
  then show ?case by simp
next
  case (Cons o1 os)
  show ?case
  proof (cases "o1 \<in> set ex")
    case True
    then show ?thesis by auto
  next
    case False
    with Cons.prems have "\<not> (distinct os \<and> set os \<inter> set (ex @ [o1]) = {})"
      by auto
    from Cons.IH [OF this, of "cps @ [p]"] obtain opt ex' cps' where
      r: "add_opts n p os (ex @ [o1]) (cps @ [p]) =
            (Some (ValueError (opt @ '' is already defined on the command '' @ n)), ex', cps')"
      and m: "opt \<in> set os" and c: "opt \<in> set (ex @ [o1]) \<or> 1 < count_list os opt"
      by blast
    from m have pos: "0 < count_list os opt" by (rule count_list_pos)
    from c pos have "opt \<in> set ex \<or> 1 < count_list (o1 # os) opt"
      by auto
    with r m False show ?thesis by auto
  qed
qed

lemma add_each_ok:
  "distinct (concat (map opts ps)) \<Longrightarrow> set (concat (map opts ps)) \<inter> set ex = {} \<Longrightarrow>
   add_each n ps ex cps =
     (None, ex @ concat (map opts ps),
      cps @ concat (map (\<lambda>p. replicate (length (opts p)) p) ps))"
proof (induction ps arbitrary: ex cps)
  case Nil
  then show ?case by simp
next
  case (Cons p ps)
  from Cons.prems have d: "distinct (opts p)" and i: "set (opts p) \<inter> set ex = {}"
    and d': "distinct (concat (map opts ps))"
    and i': "set (concat (map opts ps)) \<inter> set (ex @ opts p) = {}"
    by auto
  show ?case
    using add_opts_ok [OF d i, of n p cps] Cons.IH [OF d' i']
    by simp
qed

lemma add_each_collision:
  "\<not> (distinct (concat (map opts ps)) \<and> set (concat (map opts ps)) \<inter> set ex = {}) \<Longrightarrow>
   \<exists>opt ex' cps'.
     add_each n ps ex cps =
       (Some (ValueError (opt @ '' is already defined on the command '' @ n)), ex', cps') \<and>
     opt \<in> set (concat (map opts ps)) \<and>
     (opt \<in> set ex \<or> 1 < count_list (concat (map opts ps)) opt)"
proof (induction ps arbitrary: ex cps)
  case Nil
  then show ?case by simp
next
  case (Cons p ps)
  show ?case
  proof (cases "distinct (opts p) \<and> set (opts p) \<inter> set ex = {}")
    case False
    from add_opts_collision [OF this, of n p cps] obtain opt ex' cps' where
      "add_opts n p (opts p) ex cps =
         (Some (ValueError (opt @ '' is already defined on the command '' @ n)), ex', cps')"
      "opt \<in> set (opts p)" "opt \<in> set ex \<or> 1 < count_list (opts p) opt"
      by blast
    then show ?thesis by (auto intro!: exI [of _ opt])
  next
    case True
    then have ok: "add_opts n p (opts p) ex cps =
        (None, ex @ opts p, cps @ replicate (length (opts p)) p)"
      by (simp add: add_opts_ok)
    from True Cons.prems
    have "\<not> (distinct (concat (map opts ps)) \<and>
             set (concat (map opts ps)) \<inter> set (ex @ opts p) = {})"
      by auto
    from Cons.IH [OF this, of "cps @ replicate (length (opts p)) p"]
    obtain opt ex' cps' where
      r: "add_each n ps (ex @ opts p) (cps @ replicate (length (opts p)) p) =
            (Some (ValueError (opt @ '' is already defined on the command '' @ n)), ex', cps')"
      and m: "opt \<in> set (concat (map opts ps))"
      and c: "opt \<in> set (ex @ opts p) \<or> 1 < count_list (concat (map opts ps)) opt"
      by blast
    from m have pos: "0 < count_list (concat (map opts ps)) opt"
      by (rule count_list_pos)
    have "opt \<in> set ex \<or> 1 < count_list (concat (map opts (p # ps))) opt"
    proof (cases "opt \<in> set (opts p)")
      case True
      then have "0 < count_list (opts p) opt" by (rule count_list_pos)
      with pos show ?thesis by simp
    next
      case False
      with c show ?thesis by auto
    qed
    with r m ok show ?thesis by (auto intro!: exI [of _ opt])
  qed
qed

lemma earlier_spelling_collides:
  assumes "i < length ps" and "opt \<in> set (opts (ps ! i))"
    and "opt \<in> set ex \<or> (\<exists>j < i. opt \<in> set (opts (ps ! j)))"
  shows "\<not> (distinct (concat (map opts ps)) \<and> set (concat (map opts ps)) \<inter> set ex = {})"
proof -
  from assms(1) have split: "ps = take i ps @ ps ! i # drop (Suc i) ps"
    by (rule id_take_nth_drop)
  have whole: "concat (map opts ps) =
      concat (map opts (take i ps)) @ opts (ps ! i) @ concat (map opts (drop (Suc i) ps))"
    by (subst split) simp
  from assms(3) show ?thesis
  proof
    assume "opt \<in> set ex"
    moreover from assms(2) have "opt \<in> set (concat (map opts ps))"
      by (subst whole) simp
    ultimately show ?thesis by blast
  next
    assume "\<exists>j < i. opt \<in> set (opts (ps ! j))"
    then obtain j where j: "j < i" and o: "opt \<in> set (opts (ps ! j))" by blast
    from j assms(1) have "ps ! j \<in> set (take i ps)"
      by (metis length_take min.absorb2 less_imp_le nth_mem nth_take)
    with o have "opt \<in> set (concat (map opts (take i ps)))" by auto
    with assms(2) have "\<not> distinct (concat (map opts ps))"
      by (subst whole) auto
    then show ?thesis by simp
  qed
qed

lemma add_params_success_params:
  assumes "distinct (concat (map opts new_params))"
    and "set (concat (map opts new_params)) \<inter> set (existing_opts_of cmd) = {}"
  shows "add_params cmd new_params =
           (None, cmd\<lparr>params := params cmd
                          @ concat (map (\<lambda>p. replicate (length (opts p)) p) new_params)\<rparr>)"
  using assms by (simp add: add_params_def add_each_ok)

text \<open>
  C4. If a new option has a flag spelling that is already registered on the command, or
  that an earlier option of the same list has, \<^verbatim>\<open>add_params\<close> raises \<^verbatim>\<open>ValueError\<close> with a
  message that names a colliding flag and the command. If the new spellings are pairwise
  distinct and none of them is registered on the command, no error is raised.
\<close>

theorem add_params_duplicate_detection:
  "((\<exists>i < length new_params. \<exists>opt \<in> set (opts (new_params ! i)).
       opt \<in> set (existing_opts_of cmd) \<or> (\<exists>j < i. opt \<in> set (opts (new_params ! j)))) \<longrightarrow>
    (\<exists>opt. fst (add_params cmd new_params) =
              Some (ValueError (opt @ '' is already defined on the command '' @ name cmd)) \<and>
            opt \<in> set (concat (map opts new_params)) \<and>
            (opt \<in> set (existing_opts_of cmd) \<or>
             1 < count_list (concat (map opts new_params)) opt))) \<and>
   (distinct (concat (map opts new_params)) \<and>
    set (concat (map opts new_params)) \<inter> set (existing_opts_of cmd) = {} \<longrightarrow>
    fst (add_params cmd new_params) = None)"
proof (intro conjI impI)
  assume "\<exists>i < length new_params. \<exists>opt \<in> set (opts (new_params ! i)).
       opt \<in> set (existing_opts_of cmd) \<or> (\<exists>j < i. opt \<in> set (opts (new_params ! j)))"
  then have "\<not> (distinct (concat (map opts new_params)) \<and>
               set (concat (map opts new_params)) \<inter> set (existing_opts_of cmd) = {})"
    using earlier_spelling_collides by blast
  from add_each_collision [OF this, of "name cmd" "params cmd"]
  show "\<exists>opt. fst (add_params cmd new_params) =
              Some (ValueError (opt @ '' is already defined on the command '' @ name cmd)) \<and>
            opt \<in> set (concat (map opts new_params)) \<and>
            (opt \<in> set (existing_opts_of cmd) \<or>
             1 < count_list (concat (map opts new_params)) opt)"
    by (auto simp: add_params_def)
next
  assume "distinct (concat (map opts new_params)) \<and>
    set (concat (map opts new_params)) \<inter> set (existing_opts_of cmd) = {}"
  then show "fst (add_params cmd new_params) = None"
    by (simp add: add_params_def add_each_ok)
qed

theorem add_params_duplicate_detection_witness:
  "existing_opts_of \<lparr>name = ''ingest'', params = [\<lparr>param_name = ''verbose'', opts = [''-v'', ''--verbose'']\<rparr>]\<rparr>
     = [''-v'', ''--verbose''] \<and>
   fst (add_params
          \<lparr>name = ''ingest'', params = [\<lparr>param_name = ''verbose'', opts = [''-v'', ''--verbose'']\<rparr>]\<rparr>
          [\<lparr>param_name = ''max_docs'', opts = [''--max-docs'']\<rparr>,
           \<lparr>param_name = ''verbose'', opts = [''--verbose'']\<rparr>])
     = Some (ValueError ''--verbose is already defined on the command ingest'') \<and>
   fst (add_params
          \<lparr>name = ''ingest'', params = [\<lparr>param_name = ''verbose'', opts = [''-v'', ''--verbose'']\<rparr>]\<rparr>
          [\<lparr>param_name = ''max_docs'', opts = [''--max-docs'']\<rparr>,
           \<lparr>param_name = ''recursive'', opts = [''--recursive'']\<rparr>])
     = None"
proof -
  let ?cmd = "\<lparr>name = ''ingest'', params = [\<lparr>param_name = ''verbose'', opts = [''-v'', ''--verbose'']\<rparr>]\<rparr>"
  let ?bad = "[\<lparr>param_name = ''max_docs'', opts = [''--max-docs'']\<rparr>,
               \<lparr>param_name = ''verbose'', opts = [''--verbose'']\<rparr>]"
  let ?good = "[\<lparr>param_name = ''max_docs'', opts = [''--max-docs'']\<rparr>,
                \<lparr>param_name = ''recursive'', opts = [''--recursive'']\<rparr>]"
  have ex: "existing_opts_of ?cmd = [''-v'', ''--verbose'']"
    by (simp add: existing_opts_of_def)
  have "(1::nat) < length ?bad \<and> ''--verbose'' \<in> set (opts (?bad ! 1)) \<and>
        ''--verbose'' \<in> set (existing_opts_of ?cmd)"
    by (simp add: ex)
  then have h1: "\<exists>i < length ?bad. \<exists>opt \<in> set (opts (?bad ! i)).
       opt \<in> set (existing_opts_of ?cmd) \<or> (\<exists>j < i. opt \<in> set (opts (?bad ! j)))"
    by blast
  from add_params_duplicate_detection [of ?bad ?cmd] h1
  obtain opt where
    e: "fst (add_params ?cmd ?bad) =
          Some (ValueError (opt @ '' is already defined on the command '' @ name ?cmd))"
    and c: "opt \<in> set (concat (map opts ?bad))"
           "opt \<in> set (existing_opts_of ?cmd) \<or> 1 < count_list (concat (map opts ?bad)) opt"
    by blast
  from c have "opt = ''--verbose''" by (auto simp: ex)
  with e have c1: "fst (add_params ?cmd ?bad) =
      Some (ValueError ''--verbose is already defined on the command ingest'')"
    by simp
  have h2: "distinct (concat (map opts ?good)) \<and>
            set (concat (map opts ?good)) \<inter> set (existing_opts_of ?cmd) = {}"
    by (simp add: ex)
  from add_params_duplicate_detection [of ?good ?cmd] h2
  have c2: "fst (add_params ?cmd ?good) = None" by blast
  from ex c1 c2 show ?thesis by blast
qed

text \<open>
  C5. The claim is that a successful \<^verbatim>\<open>add_params\<close> appends each new option exactly once,
  however many spellings it has. The append is inside the loop over the spellings: an
  option with the two spellings \<^verbatim>\<open>-v\<close> and \<^verbatim>\<open>--verbose\<close>, added to a command without
  parameters, is in the parameter list twice.
\<close>

theorem add_params_appends_per_spelling:
  "add_params \<lparr>name = ''ingest'', params = []\<rparr>
     [\<lparr>param_name = ''verbose'', opts = [''-v'', ''--verbose'']\<rparr>]
   = (None,
      \<lparr>name = ''ingest'',
       params = [\<lparr>param_name = ''verbose'', opts = [''-v'', ''--verbose'']\<rparr>,
                 \<lparr>param_name = ''verbose'', opts = [''-v'', ''--verbose'']\<rparr>]\<rparr>)"
  by (simp add: add_params_def existing_opts_of_def)

section \<open>Retry-strategy reconciliation\<close>

text \<open>
  What the code does: the result is \<^verbatim>\<open>None\<close> exactly when no field of the dataclass is a
  key of the dict with a truthy value.
\<close>

lemma retry_none_iff_no_truthy_field:
  "CliRetryStrategyConfig_from_dict flds super_from_dict (PDict d) = None \<longleftrightarrow>
     \<not> (\<exists>n \<in> set flds. dict_contains d n \<and> truthy (dict_get d n))"
  by (auto simp: CliRetryStrategyConfig_from_dict_def Let_def filter_empty_conv)

text \<open>
  C7. The claim is that a dict which sets \<^verbatim>\<open>max_retries\<close> or \<^verbatim>\<open>max_retry_time\<close> to an
  explicit value, \<^verbatim>\<open>0\<close> and \<^verbatim>\<open>0.0\<close> included, gives a record. The values are collected
  with \<^verbatim>\<open>if kvs.get(n)\<close>, a truth value test: \<^verbatim>\<open>max_retries = 0\<close> and
  \<^verbatim>\<open>max_retry_time = 0.0\<close> give \<^verbatim>\<open>None\<close>, as a dict that sets neither does, while
  \<^verbatim>\<open>max_retries = 3\<close> gives the record.
\<close>

theorem retry_zero_counts_as_unset:
  "CliRetryStrategyConfig_from_dict RetryStrategyConfig_fields id
     (PDict [(''max_retries'', PInt 0), (''max_retry_time'', PNone)]) = None \<and>
   CliRetryStrategyConfig_from_dict RetryStrategyConfig_fields id
     (PDict [(''max_retries'', PNone), (''max_retry_time'', PFloat 0)]) = None \<and>
   CliRetryStrategyConfig_from_dict RetryStrategyConfig_fields id
     (PDict [(''max_retries'', PInt 3), (''max_retry_time'', PNone)]) =
     Some (PDict [(''max_retries'', PInt 3), (''max_retry_time'', PNone)])"
  by (simp add: CliRetryStrategyConfig_from_dict_def RetryStrategyConfig_fields_def
      dict_contains_def dict_get_def)

section \<open>File-or-JSON parser\<close>

text \<open>
  C8. For a string whose expanded, absolute path is an existing file,
  \<^verbatim>\<open>FileOrJson.convert\<close> returns the resolved path; it calls \<^verbatim>\<open>isfile\<close> and nothing else,
  so the result is the same whatever \<^verbatim>\<open>json.loads\<close> would do. A call of \<^verbatim>\<open>json.loads\<close>
  (which the raw-string fallback follows) is made only for a string that is no such file.
\<close>

theorem file_or_json_prefers_existing_file:
  "(isfile env (abspath env (expanduser env s)) \<longrightarrow>
      FileOrJson_convert env allow_raw_str (PStr s) =
        (Inr (PStr (resolve env (abspath env (expanduser env s)))),
         [Call_isfile (abspath env (expanduser env s))]) \<and>
      FileOrJson_convert (env\<lparr>json_loads := other_json_loads\<rparr>) allow_raw_str (PStr s) =
        FileOrJson_convert env allow_raw_str (PStr s)) \<and>
   (Call_json_loads x \<in> set (snd (FileOrJson_convert env allow_raw_str v)) \<longrightarrow>
      v = PStr x \<and> \<not> isfile env (abspath env (expanduser env x)))"
  by (auto simp: FileOrJson_convert_def Let_def split: pyval.splits option.splits if_splits)

theorem file_or_json_prefers_existing_file_witness:
  "isfile \<lparr>expanduser = id, abspath = append ''/work/'', isfile = (=) ''/work/conf.json'',
           resolve = id, json_loads = Map.empty\<rparr>
     (abspath \<lparr>expanduser = id, abspath = append ''/work/'', isfile = (=) ''/work/conf.json'',
               resolve = id, json_loads = Map.empty\<rparr>
        (expanduser \<lparr>expanduser = id, abspath = append ''/work/'', isfile = (=) ''/work/conf.json'',
                     resolve = id, json_loads = Map.empty\<rparr> ''conf.json'')) \<and>
   FileOrJson_convert
     \<lparr>expanduser = id, abspath = append ''/work/'', isfile = (=) ''/work/conf.json'',
      resolve = id, json_loads = Map.empty\<rparr> True (PStr ''conf.json'') =
     (Inr (PStr ''/work/conf.json''), [Call_isfile ''/work/conf.json'']) \<and>
   Call_json_loads ''{}'' \<in> set (snd (FileOrJson_convert
     \<lparr>expanduser = id, abspath = append ''/work/'', isfile = (=) ''/work/conf.json'',
      resolve = id, json_loads = Map.empty\<rparr> True (PStr ''{}''))) \<and>
   \<not> isfile \<lparr>expanduser = id, abspath = append ''/work/'', isfile = (=) ''/work/conf.json'',
             resolve = id, json_loads = Map.empty\<rparr> ''/work/{}''"
proof -
  let ?env = "\<lparr>expanduser = id, abspath = append ''/work/'', isfile = (=) ''/work/conf.json'',
               resolve = id, json_loads = Map.empty\<rparr>"
  have h1: "isfile ?env (abspath ?env (expanduser ?env ''conf.json''))" by simp
  from file_or_json_prefers_existing_file
    [where env = "?env" and s = "''conf.json''" and allow_raw_str = True] h1
  have "FileOrJson_convert ?env True (PStr ''conf.json'') =
        (Inr (PStr (resolve ?env (abspath ?env (expanduser ?env ''conf.json'')))),
         [Call_isfile (abspath ?env (expanduser ?env ''conf.json''))])"
    by blast
  then have c1: "FileOrJson_convert ?env True (PStr ''conf.json'') =
        (Inr (PStr ''/work/conf.json''), [Call_isfile ''/work/conf.json''])"
    by simp
  have h2: "Call_json_loads ''{}'' \<in> set (snd (FileOrJson_convert ?env True (PStr ''{}'')))"
    by (simp add: FileOrJson_convert_def)
  from file_or_json_prefers_existing_file
    [where env = "?env" and x = "''{}''" and allow_raw_str = True and v = "PStr ''{}''"] h2
  have "\<not> isfile ?env (abspath ?env (expanduser ?env ''{}''))" by blast
  then have c2: "\<not> isfile ?env ''/work/{}''" by simp
  from h1 c1 h2 c2 show ?thesis by blast
qed

section \<open>Delimited strings\<close>

text \<open>
  The pieces of a split hold no occurrence of the separator, and neither do the trimmed
  pieces. Joined with an unbordered separator, pieces without an occurrence are split
  again where they were joined. Trimming twice is trimming once.
\<close>

lemma startswith_iff_prefix: "startswith s p \<longleftrightarrow> prefix p s"
  unfolding startswith_def by (metis append_eq_conv_conj append_take_drop_id prefix_def)

lemma split_at_not_Nil: "split_at sep s \<noteq> []"
  by (induction sep s rule: split_at.induct) (auto split: list.splits)

lemma hd_split_at_prefix: "prefix (hd (split_at sep s)) s"
  by (induction sep s rule: split_at.induct) (auto split: list.splits)

lemma split_at_pieces_free:
  "sep \<noteq> [] \<Longrightarrow> p \<in> set (split_at sep s) \<Longrightarrow> \<not> sublist sep p"
proof (induction sep s arbitrary: p rule: split_at.induct)
  case (1 sep)
  then show ?case by simp
next
  case (2 sep c cs)
  show ?case
  proof (cases "startswith (c # cs) sep")
    case True
    with "2.prems" "2.IH"(1) show ?thesis by auto
  next
    case False
    obtain q qs where q: "split_at sep cs = q # qs"
      using split_at_not_Nil [of sep cs] by (cases "split_at sep cs") auto
    from False "2.prems" q have "p = c # q \<or> p \<in> set qs" by auto
    then show ?thesis
    proof
      assume "p \<in> set qs"
      with "2.IH"(2) False "2.prems"(1) q show ?thesis by auto
    next
      assume p: "p = c # q"
      from "2.IH"(2) False "2.prems"(1) q have free: "\<not> sublist sep q" by auto
      from hd_split_at_prefix [of sep cs] q have "prefix q cs" by simp
      then have "prefix (c # q) (c # cs)" by simp
      with False have "\<not> prefix sep (c # q)"
        unfolding startswith_iff_prefix using prefix_order.trans by blast
      with free show ?thesis by (simp add: p sublist_Cons_right)
    qed
  qed
qed

lemma split_at_free: "sep \<noteq> [] \<Longrightarrow> \<not> sublist sep p \<Longrightarrow> split_at sep p = [p]"
proof (induction p)
  case Nil
  then show ?case by simp
next
  case (Cons c p)
  from Cons.prems have "\<not> prefix sep (c # p)" and "\<not> sublist sep p"
    by (auto simp: sublist_Cons_right)
  with Cons.IH Cons.prems(1) show ?case
    by (simp add: startswith_iff_prefix)
qed

lemma unbordered_no_overlap:
  assumes "unbordered d" and "d = p @ us" and "prefix us d" and "p \<noteq> []"
  shows "us = []"
proof (rule ccontr)
  assume "us \<noteq> []"
  define k where "k = length us"
  from assms(2,4) \<open>us \<noteq> []\<close> have k: "1 \<le> k" "k < length d"
    by (auto simp: k_def Suc_le_eq)
  from assms(3) have "take k d = us"
    by (auto simp: k_def prefix_def)
  moreover from assms(2) have "drop (length d - k) d = us"
    by (simp add: k_def)
  moreover from assms(1) k have "take k d \<noteq> drop (length d - k) d"
    by (auto simp: unbordered_def list_all_iff)
  ultimately show False by simp
qed

lemma split_at_piece_then_sep:
  "unbordered d \<Longrightarrow> \<not> sublist d p \<Longrightarrow> split_at d (p @ d @ rest) = p # split_at d rest"
proof (induction p)
  case Nil
  from Nil.prems(1) obtain c d' where d: "d = c # d'"
    by (cases d) (auto simp: unbordered_def)
  have "split_at d (c # (d' @ rest)) = [] # split_at d (drop (length d) (c # (d' @ rest)))"
    by (simp add: startswith_def d)
  then show ?case by (simp add: d)
next
  case (Cons c p)
  from Cons.prems(1) have ne: "d \<noteq> []" by (simp add: unbordered_def)
  from Cons.prems(2) have free: "\<not> sublist d p" and nopre: "\<not> prefix d (c # p)"
    by (auto simp: sublist_Cons_right)
  have "\<not> prefix d ((c # p) @ d @ rest)"
  proof
    assume "prefix d ((c # p) @ d @ rest)"
    with nopre obtain us where us: "d = (c # p) @ us" "prefix us (d @ rest)"
      unfolding prefix_append by blast
    from us(1) have "length us \<le> length d" by simp
    with us(2) have "prefix us d"
      by (metis prefix_length_prefix prefixI)
    from unbordered_no_overlap [OF Cons.prems(1) us(1) this] have "us = []" by simp
    with us(1) nopre show False by simp
  qed
  with Cons.IH [OF Cons.prems(1) free] ne show ?case
    by (simp add: startswith_iff_prefix)
qed

lemma split_at_join:
  "unbordered d \<Longrightarrow> xs \<noteq> [] \<Longrightarrow> \<forall>p \<in> set xs. \<not> sublist d p \<Longrightarrow>
   split_at d (str_join d xs) = xs"
proof (induction d xs rule: str_join.induct)
  case (1 sep)
  then show ?case by simp
next
  case (2 sep x)
  then show ?case by (simp add: split_at_free unbordered_def)
next
  case (3 sep x y ys)
  then show ?case by (simp add: split_at_piece_then_sep)
qed

lemma strip_sublist: "sublist (strip p) p"
proof -
  define q where "q = dropWhile isspace p"
  have "rev q = takeWhile isspace (rev q) @ dropWhile isspace (rev q)" by simp
  then have "q = strip p @ rev (takeWhile isspace (rev q))"
    unfolding strip_def q_def by (metis rev_append rev_rev_ident)
  moreover have "p = takeWhile isspace p @ q" by (simp add: q_def)
  ultimately have "p = takeWhile isspace p @ strip p @ rev (takeWhile isspace (rev q))"
    by simp
  then show ?thesis by (metis sublist_appendI)
qed

lemma strip_free: "\<not> sublist d p \<Longrightarrow> \<not> sublist d (strip p)"
  using strip_sublist sublist_order.order_trans by blast

lemma dropWhile_rev_dropWhile_rev:
  assumes "xs = [] \<or> \<not> P (hd xs)"
  shows "dropWhile P (rev (dropWhile P (rev xs))) = rev (dropWhile P (rev xs))"
proof (cases "rev (dropWhile P (rev xs))")
  case Nil
  show ?thesis unfolding Nil by simp
next
  case (Cons y ys)
  have "rev xs = takeWhile P (rev xs) @ dropWhile P (rev xs)" by simp
  then have "xs = rev (dropWhile P (rev xs)) @ rev (takeWhile P (rev xs))"
    by (metis rev_append rev_rev_ident)
  with Cons have "xs = y # ys @ rev (takeWhile P (rev xs))" by simp
  then have "xs \<noteq> []" "hd xs = y" by (metis list.distinct(1), metis list.sel(1))
  with assms have "\<not> P y" by simp
  with Cons show ?thesis by simp
qed

lemma strip_idem: "strip (strip s) = strip s"
proof -
  define q where "q = dropWhile isspace s"
  have q: "q = [] \<or> \<not> isspace (hd q)"
    unfolding q_def by (metis hd_dropWhile)
  have "dropWhile isspace (rev (dropWhile isspace (rev q))) = rev (dropWhile isspace (rev q))"
    using q by (rule dropWhile_rev_dropWhile_rev [of q isspace])
  then show ?thesis
    by (simp add: strip_def q_def dropWhile_idem)
qed

lemma convert_roundtrip_pieces:
  assumes "unbordered d"
  shows "map strip (split_at d (str_join d (map strip (split_at d s)))) = map strip (split_at d s)"
proof -
  from assms have ne: "d \<noteq> []" by (simp add: unbordered_def)
  have "\<forall>p \<in> set (map strip (split_at d s)). \<not> sublist d p"
    using split_at_pieces_free [OF ne] strip_free by auto
  moreover have "map strip (split_at d s) \<noteq> []" by (simp add: split_at_not_Nil)
  ultimately have "split_at d (str_join d (map strip (split_at d s))) = map strip (split_at d s)"
    using split_at_join [OF assms] by blast
  then show ?thesis by (simp add: strip_idem)
qed

lemma single_char_unbordered: "length d = 1 \<Longrightarrow> unbordered d"
  by (cases d) (auto simp: unbordered_def)

text \<open>
  C9 (amended). For a \<^verbatim>\<open>DelimitedString\<close> without choices whose delimiter is not empty and
  unbordered (every delimiter of one character is), and for every input string,
  \<^verbatim>\<open>convert\<close> returns the trimmed pieces of the split, and converting the join of that
  list with the delimiter returns the same list.
\<close>

theorem delimited_string_roundtrip:
  assumes "unbordered (delimiter self)" and "choices self = []"
  shows "DelimitedString_convert bi self (PStr s) =
           Inr (map strip (split_at (delimiter self) s)) \<and>
         DelimitedString_convert bi self
           (PStr (str_join (delimiter self) (map strip (split_at (delimiter self) s)))) =
           Inr (map strip (split_at (delimiter self) s))"
proof -
  from assms(1) have ne: "delimiter self \<noteq> []" by (simp add: unbordered_def)
  have conv: "DelimitedString_convert bi self (PStr t) =
      Inr (map strip (split_at (delimiter self) t))" for t
    using ne assms(2) by (simp add: DelimitedString_convert_def str_split_def)
  show ?thesis
    by (simp add: conv convert_roundtrip_pieces [OF assms(1)])
qed

theorem delimited_string_roundtrip_witness:
  "unbordered (delimiter (DelimitedString_init '','' None)) \<and>
   choices (DelimitedString_init '','' None) = [] \<and>
   DelimitedString_convert \<lparr>py_str = (\<lambda>v. []), py_repr = id\<rparr>
     (DelimitedString_init '','' None) (PStr '' a, b ,c'') = Inr [''a'', ''b'', ''c''] \<and>
   DelimitedString_convert \<lparr>py_str = (\<lambda>v. []), py_repr = id\<rparr>
     (DelimitedString_init '','' None) (PStr ''a,b,c'') = Inr [''a'', ''b'', ''c'']"
proof -
  let ?self = "DelimitedString_init '','' None"
  let ?bi = "\<lparr>py_str = (\<lambda>v. []), py_repr = id\<rparr>"
  have h1: "unbordered (delimiter ?self)"
    by (simp add: DelimitedString_init_def unbordered_def)
  have h2: "choices ?self = []" by (simp add: DelimitedString_init_def)
  have d: "delimiter ?self = '',''" by (simp add: DelimitedString_init_def)
  have pieces: "map strip (split_at '','' '' a, b ,c'') = [''a'', ''b'', ''c'']"
    by (simp add: startswith_def strip_def isspace_def)
  have joined: "str_join '','' [''a'', ''b'', ''c''] = ''a,b,c''" by simp
  from delimited_string_roundtrip [OF h1 h2, of ?bi "'' a, b ,c''"]
  have "DelimitedString_convert ?bi ?self (PStr '' a, b ,c'') = Inr [''a'', ''b'', ''c''] \<and>
        DelimitedString_convert ?bi ?self (PStr ''a,b,c'') = Inr [''a'', ''b'', ''c'']"
    unfolding d pieces joined .
  with h1 h2 show ?thesis by blast
qed

text \<open>
  For a delimiter with a border the round trip can fail: with \<^verbatim>\<open>"::"\<close> the input
  \<^verbatim>\<open>"a: ::b"\<close> gives \<^verbatim>\<open>["a:", "b"]\<close>, whose join \<^verbatim>\<open>"a:::b"\<close> gives \<^verbatim>\<open>["a", ":b"]\<close>.
\<close>

theorem delimited_string_roundtrip_counterexample:
  "DelimitedString_convert \<lparr>py_str = (\<lambda>v. []), py_repr = id\<rparr>
     (DelimitedString_init ''::'' None) (PStr ''a: ::b'') = Inr [''a:'', ''b''] \<and>
   str_join ''::'' [''a:'', ''b''] = ''a:::b'' \<and>
   DelimitedString_convert \<lparr>py_str = (\<lambda>v. []), py_repr = id\<rparr>
     (DelimitedString_init ''::'' None) (PStr ''a:::b'') = Inr [''a'', '':b'']"
  by (simp add: DelimitedString_convert_def DelimitedString_init_def str_split_def
      startswith_def strip_def isspace_def)

end
